theory Spec2Isabelle
  imports Main "HOL-Library.Sublist" "HOL-Library.Word"
begin

section \<open>Data model of \<open>langflow/middleware.py\<close>\<close>

text \<open>
  An ASGI message is a dictionary. The guard reads two of its keys: \<open>message["type"]\<close>
  and \<open>message.get("body", b"")\<close>, so \<open>body\<close> is optional (a missing key reads as the
  empty byte string). \<open>more_body\<close> stands for the keys the guard never reads; it is there
  so that "forwarded unchanged" says something about them too.
\<close>

type_synonym byte = "8 word"

record message =
  mtype :: string
  body :: "byte list option"
  more_body :: bool

text \<open>
  \<open>HTTPException(status_code, detail)\<close> of the framework, and its subclass
  \<open>MaxFileSizeException(detail)\<close>, which fixes the status code to 413.
\<close>

record http_exception =
  status_code :: nat
  detail :: string

definition MaxFileSizeException :: "string \<Rightarrow> http_exception" where
  "MaxFileSizeException d = \<lparr>status_code = 413, detail = d\<rparr>"

section \<open>Formatting of the two numbers in the error message\<close>

text \<open>
  \<open>f"{max_file_size_upload}"\<close> for a Python \<open>int\<close>: its decimal digits, with a leading
  minus sign for a negative value.
\<close>

definition digit_char :: "nat \<Rightarrow> char" where
  "digit_char d = ''0123456789'' ! d"

fun str_nat :: "nat \<Rightarrow> string" where
  "str_nat n = (if n < 10 then [digit_char n] else str_nat (n div 10) @ [digit_char (n mod 10)])"

declare str_nat.simps [simp del]

definition str_int :: "int \<Rightarrow> string" where
  "str_int i = (if i < 0 then ''-'' @ str_nat (nat (- i)) else str_nat (nat i))"

text \<open>
  \<open>received_in_mb = round(received / (1024 * 1024), 3)\<close> is float arithmetic. For
  \<open>received < 2 ^ 53\<close> the quotient by the power of two \<open>2 ^ 20\<close> is an exact double, and
  Python's \<open>round(x, 3)\<close> is the double nearest to the exact value of \<open>x\<close> rounded to three
  decimals, ties going to the even last digit. The result is therefore determined by an
  integer number of thousandths, computed here in exact arithmetic.
\<close>

definition round_half_even :: "nat \<Rightarrow> nat \<Rightarrow> nat" where
  "round_half_even n d =
     (let q = n div d; r = n mod d
      in if 2 * r < d then q
         else if d < 2 * r then q + 1
         else if even q then q else q + 1)"

definition received_in_mb :: "nat \<Rightarrow> nat" where
  "received_in_mb received = round_half_even (received * 1000) (1024 * 1024)"

text \<open>
  \<open>f"{received_in_mb}"\<close> prints the shortest decimal that reads back as the same double:
  the integer part, a point, and the thousandths without trailing zeros but with at
  least one digit (\<open>3.0\<close>, \<open>1.5\<close>, \<open>1.172\<close>). The argument is the number of thousandths.
\<close>

definition str_float3 :: "nat \<Rightarrow> string" where
  "str_float3 t =
     (let f = t mod 1000;
          d1 = digit_char (f div 100);
          d2 = digit_char (f div 10 mod 10);
          d3 = digit_char (f mod 10)
      in str_nat (t div 1000) @ ''.'' @
         (if f mod 100 = 0 then [d1]
          else if f mod 10 = 0 then [d1, d2]
          else [d1, d2, d3]))"

section \<open>Reading decimal notation\<close>

text \<open>
  What a printed number denotes. These readers are not part of the middleware: they
  state what the text in the error message says. They accept one spelling per number: an
  integer without leading zeros, with a minus sign only before a non-zero number, and a
  decimal with one to three digits after the point and no trailing zero beyond the first
  of them. \<open>read_decimal3\<close> returns the number in thousandths.
\<close>

definition digit_val :: "char \<Rightarrow> nat option" where
  "digit_val c =
     map_of [(CHR ''0'', 0), (CHR ''1'', 1), (CHR ''2'', 2), (CHR ''3'', 3), (CHR ''4'', 4),
             (CHR ''5'', 5), (CHR ''6'', 6), (CHR ''7'', 7), (CHR ''8'', 8), (CHR ''9'', 9)] c"

fun read_digits :: "string \<Rightarrow> nat \<Rightarrow> nat option" where
  "read_digits [] acc = Some acc"
| "read_digits (c # cs) acc =
     (case digit_val c of None \<Rightarrow> None | Some d \<Rightarrow> read_digits cs (10 * acc + d))"

definition read_nat :: "string \<Rightarrow> nat option" where
  "read_nat s =
     (if s = [] then None
      else if 1 < length s \<and> hd s = CHR ''0'' then None
      else read_digits s 0)"

definition read_int :: "string \<Rightarrow> int option" where
  "read_int s =
     (if s \<noteq> [] \<and> hd s = CHR ''-''
      then (case read_nat (tl s) of
              None \<Rightarrow> None
            | Some n \<Rightarrow> if n = 0 then None else Some (- int n))
      else map_option int (read_nat s))"

definition read_decimal3 :: "string \<Rightarrow> nat option" where
  "read_decimal3 s =
     (let ip = takeWhile (\<lambda>c. c \<noteq> CHR ''.'') s;
          rest = dropWhile (\<lambda>c. c \<noteq> CHR ''.'') s
      in if rest = [] then None
         else
           (let fp = tl rest
            in if fp = [] \<or> 3 < length fp then None
               else if 1 < length fp \<and> last fp = CHR ''0'' then None
               else (case read_nat ip of
                       None \<Rightarrow> None
                     | Some i \<Rightarrow>
                         (case read_digits fp 0 of
                            None \<Rightarrow> None
                          | Some f \<Rightarrow> Some (i * 1000 + f * 10 ^ (3 - length fp))))))"

section \<open>The Body Size Guard: \<open>ContentSizeLimitMiddleware.receive_wrapper\<close>\<close>

text \<open>
  \<open>receive_wrapper(receive)\<close> creates the closure \<open>inner\<close> with its own counter
  \<open>received = 0\<close>; the closure's whole state is that counter.
\<close>

definition receive_wrapper :: nat where
  "receive_wrapper = 0"

definition body_len :: "message \<Rightarrow> nat" where
  "body_len message = length (case body message of None \<Rightarrow> [] | Some b \<Rightarrow> b)"

definition limit_msg :: "int \<Rightarrow> nat \<Rightarrow> string" where
  "limit_msg max_file_size_upload received =
     ''Content size limit exceeded. Maximum allowed is '' @ str_int max_file_size_upload @ ''MB''
     @ '' and got '' @ str_float3 (received_in_mb received) @ ''MB.''"

text \<open>
  One call of \<open>inner()\<close>. Its inputs are what the call reads from outside: the value of
  \<open>get_settings_service().settings.max_file_size_upload\<close> at this call (\<open>None\<close> for no
  limit), the message that \<open>await receive()\<close> delivers, and the counter. It returns the
  message or the raised exception, and the counter as the call leaves it.
\<close>

definition inner :: "int option \<Rightarrow> message \<Rightarrow> nat \<Rightarrow> (http_exception + message) \<times> nat" where
  "inner max_file_size_upload message received =
     (if mtype message \<noteq> ''http.request'' \<or> max_file_size_upload = None
      then (Inr message, received)
      else case max_file_size_upload of
        None \<Rightarrow> (Inr message, received)
      | Some lim \<Rightarrow>
          (let received' = received + body_len message
           in if int received' > lim * 1024 * 1024
              then (Inl (MaxFileSizeException (limit_msg lim received')), received')
              else (Inr message, received')))"

text \<open>
  The application calls the wrapper once per message it wants. \<open>guard_run\<close> is that
  sequence of calls for an application that lets the exception propagate: each step pairs
  the setting current at the call with the message delivered, and the first raise ends
  the run. The result is the messages handed to the application, the exception if one
  was raised, and the final counter.
\<close>

fun guard_run :: "(int option \<times> message) list \<Rightarrow> nat \<Rightarrow> message list \<times> http_exception option \<times> nat" where
  "guard_run [] received = ([], None, received)"
| "guard_run ((s, m) # rest) received =
     (case inner s m received of
        (Inl e, r) \<Rightarrow> ([], Some e, r)
      | (Inr m', r) \<Rightarrow> (case guard_run rest r of (out, err, r') \<Rightarrow> (m' # out, err, r')))"

text \<open>The bytes a sequence of messages adds to the counter under a finite limit.\<close>

definition counted :: "message \<Rightarrow> nat" where
  "counted m = (if mtype m = ''http.request'' then body_len m else 0)"

definition total_bytes :: "message list \<Rightarrow> nat" where
  "total_bytes msgs = sum_list (map counted msgs)"

definition chunk :: "nat \<Rightarrow> message" where
  "chunk n = \<lparr>mtype = ''http.request'', body = Some (replicate n 0), more_body = True\<rparr>"

section \<open>The Origin Gate: \<open>OriginValidationMiddleware\<close>\<close>

text \<open>
  A request as \<open>dispatch\<close> reads it: \<open>request.url.path\<close> and \<open>request.headers\<close>. The
  headers are the raw list of name and value pairs, names in lower case as ASGI delivers
  them; \<open>headers.get(key)\<close> returns the value of the first pair under that name, or the
  default when there is none.
\<close>

record request =
  path :: string
  headers :: "(string \<times> string) list"

definition headers_get :: "request \<Rightarrow> string \<Rightarrow> string option" where
  "headers_get req key = map_of (headers req) key"

text \<open>
  Python's \<open>a or b\<close> on an optional string: \<open>a\<close> when it is truthy, that is neither
  \<open>None\<close> nor the empty string, and \<open>b\<close> otherwise.
\<close>

definition py_or :: "string option \<Rightarrow> string \<Rightarrow> string" where
  "py_or a b = (case a of None \<Rightarrow> b | Some v \<Rightarrow> if v = [] then b else v)"

text \<open>
  \<open>origin = request.headers.get("origin") or request.headers.get("referer", "")\<close>
\<close>

definition request_origin :: "request \<Rightarrow> string" where
  "request_origin req =
     py_or (headers_get req ''origin'')
       (case headers_get req ''referer'' of None \<Rightarrow> [] | Some v \<Rightarrow> v)"

text \<open>\<open>self.bypass_paths\<close>, set once by the constructor.\<close>

definition bypass_paths :: "string list" where
  "bypass_paths = [''/health'', ''/docs'', ''/openapi.json'']"

text \<open>\<open>s.startswith(p)\<close>, and \<open>_is_origin_allowed\<close> over \<open>self.allowed_origins\<close>.\<close>

definition startswith :: "string \<Rightarrow> string \<Rightarrow> bool" where
  "startswith s p = prefix p s"

definition is_origin_allowed :: "string list \<Rightarrow> string \<Rightarrow> bool" where
  "is_origin_allowed allowed_origins origin =
     (if origin = [] then False
      else list_ex (\<lambda>allowed. startswith origin allowed) allowed_origins)"

text \<open>
  What \<open>dispatch\<close> returns is either the response of \<open>call_next\<close> or a \<open>JSONResponse\<close>
  of its own, given by its status code and the items of its JSON object.
\<close>

datatype 'r response = Next 'r | JSONResponse nat "(string \<times> string) list"

text \<open>
  The warning text starts with the sign U+1F6AB; a \<open>char\<close> is a byte, so the sign is
  written as its four UTF-8 bytes.
\<close>

definition no_entry_sign :: string where
  "no_entry_sign = [CHR 0xF0, CHR 0x9F, CHR 0x9A, CHR 0xAB]"

datatype log_record = Warning string

text \<open>
  The effects of one \<open>dispatch\<close>: the response returned, the requests handed to
  \<open>call_next\<close> (none or one), and the log records written.
\<close>

record 'r outcome =
  response :: "'r response"
  called_next :: "request list"
  logged :: "log_record list"

definition forward :: "(request \<Rightarrow> 'r) \<Rightarrow> request \<Rightarrow> 'r outcome" where
  "forward call_next req =
     \<lparr>response = Next (call_next req), called_next = [req], logged = []\<rparr>"

definition dispatch :: "string list \<Rightarrow> (request \<Rightarrow> 'r) \<Rightarrow> request \<Rightarrow> 'r outcome" where
  "dispatch allowed_origins call_next req =
     (if allowed_origins = [] then forward call_next req
      else if list_ex (\<lambda>p. startswith (path req) p) bypass_paths then forward call_next req
      else
        (let origin = request_origin req
         in if \<not> is_origin_allowed allowed_origins origin
            then \<lparr>response = JSONResponse 401 [(''detail'', ''Direct access not allowed'')],
                  called_next = [],
                  logged = [Warning (no_entry_sign @ '' Blocked direct access from: ''
                                      @ py_or (Some origin) ''unknown origin'')]\<rparr>
            else forward call_next req))"

section \<open>Properties of the Body Size Guard\<close>

subsection \<open>One call\<close>

lemma inner_None: "inner None m r = (Inr m, r)"
  by (simp add: inner_def)

lemma inner_other: "mtype m \<noteq> ''http.request'' \<Longrightarrow> inner s m r = (Inr m, r)"
  by (simp add: inner_def)

lemma inner_Some:
  "mtype m = ''http.request'' \<Longrightarrow>
   inner (Some lim) m r =
     (if int (r + body_len m) > lim * 1024 * 1024
      then (Inl (MaxFileSizeException (limit_msg lim (r + body_len m))), r + body_len m)
      else (Inr m, r + body_len m))"
  by (simp add: inner_def Let_def)

lemma chunk_simps: "mtype (chunk n) = ''http.request''" "body_len (chunk n) = n"
  by (simp_all add: chunk_def body_len_def)

lemma total_bytes_simps:
  "total_bytes [] = 0"
  "total_bytes (m # ms) = counted m + total_bytes ms"
  by (simp_all add: total_bytes_def)

subsection \<open>A stream of calls\<close>

lemma guard_run_None: "guard_run (map (Pair None) msgs) r = (msgs, None, r)"
  by (induction msgs) (simp_all add: inner_None)

text \<open>A run that did not raise continues on what follows from the counter it reached.\<close>

lemma guard_run_append:
  "guard_run pre r0 = (out, None, r) \<Longrightarrow>
   guard_run (pre @ post) r0 = (case guard_run post r of (out', err, r') \<Rightarrow> (out @ out', err, r'))"
proof (induction pre arbitrary: r0 out)
  case Nil
  then show ?case by (simp split: prod.splits)
next
  case (Cons sm pre)
  obtain s m where sm: "sm = (s, m)" by (cases sm)
  obtain res r1 where i: "inner s m r0 = (res, r1)" by (cases "inner s m r0")
  show ?case
  proof (cases res)
    case (Inl e)
    with Cons.prems sm i show ?thesis by simp
  next
    case (Inr m')
    obtain out1 err1 r2 where g: "guard_run pre r1 = (out1, err1, r2)"
      by (cases "guard_run pre r1") auto
    with Cons.prems sm i Inr have "err1 = None" "r2 = r" "out = m' # out1" by simp_all
    with g have "guard_run pre r1 = (out1, None, r)" by simp
    from Cons.IH [OF this] sm i Inr \<open>out = m' # out1\<close> show ?thesis
      by (simp split: prod.splits)
  qed
qed

text \<open>Under a constant finite limit: the stream stays within the threshold.\<close>

lemma guard_run_within:
  "int (r + total_bytes msgs) \<le> lim * 1024 * 1024 \<Longrightarrow>
   guard_run (map (Pair (Some lim)) msgs) r = (msgs, None, r + total_bytes msgs)"
proof (induction msgs arbitrary: r)
  case Nil
  then show ?case by (simp add: total_bytes_simps)
next
  case (Cons m ms)
  show ?case
  proof (cases "mtype m = ''http.request''")
    case True
    then have c: "counted m = body_len m" by (simp add: counted_def)
    from Cons.prems c have le: "int (r + body_len m) \<le> lim * 1024 * 1024"
      by (simp add: total_bytes_simps)
    from Cons.prems c have "int ((r + body_len m) + total_bytes ms) \<le> lim * 1024 * 1024"
      by (simp add: total_bytes_simps add.assoc)
    from Cons.IH [OF this] le True c show ?thesis
      by (simp add: inner_Some total_bytes_simps)
  next
    case False
    then have c: "counted m = 0" by (simp add: counted_def)
    from Cons.prems c have "int (r + total_bytes ms) \<le> lim * 1024 * 1024"
      by (simp add: total_bytes_simps)
    from Cons.IH [OF this] False c show ?thesis
      by (simp add: inner_other total_bytes_simps)
  qed
qed

text \<open>
  Under a constant finite limit: the stream of body chunks goes over the threshold. The
  run ends at the first chunk whose running total is over it.
\<close>

lemma guard_run_exceeds:
  "\<forall>m\<in>set msgs. mtype m = ''http.request'' \<Longrightarrow> msgs \<noteq> [] \<Longrightarrow>
   int (r + total_bytes msgs) > lim * 1024 * 1024 \<Longrightarrow>
   \<exists>k<length msgs.
     guard_run (map (Pair (Some lim)) msgs) r
       = (take k msgs,
          Some (MaxFileSizeException (limit_msg lim (r + total_bytes (take (Suc k) msgs)))),
          r + total_bytes (take (Suc k) msgs)) \<and>
     int (r + total_bytes (take (Suc k) msgs)) > lim * 1024 * 1024 \<and>
     (\<forall>j<k. int (r + total_bytes (take (Suc j) msgs)) \<le> lim * 1024 * 1024)"
proof (induction msgs arbitrary: r)
  case Nil
  then show ?case by simp
next
  case (Cons m ms)
  from Cons.prems(1) have http: "mtype m = ''http.request''"
    and rest: "\<forall>m\<in>set ms. mtype m = ''http.request''"
    by simp_all
  then have c: "counted m = body_len m" by (simp add: counted_def)
  show ?case
  proof (cases "int (r + body_len m) > lim * 1024 * 1024")
    case True
    with http c show ?thesis
      by (intro exI [of _ 0]) (simp add: inner_Some total_bytes_simps)
  next
    case False
    with Cons.prems(3) c have ne: "ms \<noteq> []"
      by (auto simp: total_bytes_simps)
    from Cons.prems(3) c have "int ((r + body_len m) + total_bytes ms) > lim * 1024 * 1024"
      by (simp add: total_bytes_simps add.assoc)
    from Cons.IH [OF rest ne this] obtain k where k: "k < length ms"
      and run: "guard_run (map (Pair (Some lim)) ms) (r + body_len m)
       = (take k ms,
          Some (MaxFileSizeException (limit_msg lim (r + body_len m + total_bytes (take (Suc k) ms)))),
          r + body_len m + total_bytes (take (Suc k) ms))"
      and over: "int (r + body_len m + total_bytes (take (Suc k) ms)) > lim * 1024 * 1024"
      and under: "\<forall>j<k. int (r + body_len m + total_bytes (take (Suc j) ms)) \<le> lim * 1024 * 1024"
      by blast
    have under': "\<forall>j<Suc k. int (r + total_bytes (take (Suc j) (m # ms))) \<le> lim * 1024 * 1024"
    proof (intro allI impI)
      fix j assume "j < Suc k"
      show "int (r + total_bytes (take (Suc j) (m # ms))) \<le> lim * 1024 * 1024"
      proof (cases j)
        case 0
        with False c show ?thesis by (simp add: total_bytes_simps)
      next
        case (Suc i)
        with \<open>j < Suc k\<close> have "i < k" by simp
        with under Suc c show ?thesis by (simp add: total_bytes_simps add.assoc)
      qed
    qed
    from k run over False http c under' show ?thesis
      by (intro exI [of _ "Suc k"]) (simp add: inner_Some total_bytes_simps add.assoc)
  qed
qed

subsection \<open>Rounding to thousandths of a megabyte\<close>

lemma round_bound:
  assumes "0 < d"
  shows "2 * \<bar>int (round_half_even n d) * int d - int n\<bar> \<le> int d"
proof -
  define q where "q = n div d"
  define r where "r = n mod d"
  have n: "int n = int q * int d + int r"
    unfolding q_def r_def by (metis div_mult_mod_eq of_nat_add of_nat_mult)
  have r: "r < d" unfolding r_def using assms by simp
  show ?thesis
    unfolding round_half_even_def Let_def q_def [symmetric] r_def [symmetric] n
    using r by (auto simp: algebra_simps)
qed

lemma received_in_mb_bound:
  "2 * \<bar>int (received_in_mb r) * 1048576 - 1000 * int r\<bar> \<le> 1048576"
  using round_bound [of "1024 * 1024" "r * 1000"] by (simp add: received_in_mb_def)

subsection \<open>The printed numbers read back\<close>

lemma lt10_cases:
  "d < 10 \<Longrightarrow> d = 0 \<or> d = 1 \<or> d = 2 \<or> d = 3 \<or> d = 4 \<or> d = 5 \<or> d = 6 \<or> d = 7 \<or> d = 8
     \<or> d = (9::nat)"
  by arith

lemma digit_val_digit_char: "d < 10 \<Longrightarrow> digit_val (digit_char d) = Some d"
  by (drule lt10_cases) (auto simp: digit_val_def digit_char_def)

lemma digit_char_not_zero: "0 < d \<Longrightarrow> d < 10 \<Longrightarrow> digit_char d \<noteq> CHR ''0''"
  by (drule lt10_cases) (auto simp: digit_char_def)

lemma digit_char_not_sign:
  "d < 10 \<Longrightarrow> digit_char d \<noteq> CHR ''-'' \<and> digit_char d \<noteq> CHR ''.''"
  by (drule lt10_cases) (auto simp: digit_char_def)

lemma read_digits_snoc:
  "d < 10 \<Longrightarrow>
   read_digits (xs @ [digit_char d]) acc =
     (case read_digits xs acc of None \<Rightarrow> None | Some v \<Rightarrow> Some (10 * v + d))"
  by (induction xs arbitrary: acc) (simp_all add: digit_val_digit_char split: option.splits)

lemma read_digits_str_nat: "read_digits (str_nat n) 0 = Some n"
proof (induction n rule: str_nat.induct)
  case (1 n)
  show ?case
  proof (cases "n < 10")
    case True
    then show ?thesis by (simp add: str_nat.simps [of n] digit_val_digit_char)
  next
    case False
    with 1 have "read_digits (str_nat (n div 10)) 0 = Some (n div 10)" by simp
    with False show ?thesis
      by (simp add: str_nat.simps [of n] read_digits_snoc)
  qed
qed

lemma str_nat_not_Nil: "str_nat n \<noteq> []"
  by (simp add: str_nat.simps [of n])

lemma str_nat_digits: "c \<in> set (str_nat n) \<Longrightarrow> c \<noteq> CHR ''-'' \<and> c \<noteq> CHR ''.''"
proof (induction n rule: str_nat.induct)
  case (1 n)
  show ?case
  proof (cases "n < 10")
    case True
    with 1(2) show ?thesis by (simp add: str_nat.simps [of n] digit_char_not_sign)
  next
    case False
    with 1 show ?thesis
      by (auto simp: str_nat.simps [of n] digit_char_not_sign)
  qed
qed

lemma hd_str_nat: "0 < n \<Longrightarrow> hd (str_nat n) \<noteq> CHR ''0''"
proof (induction n rule: str_nat.induct)
  case (1 n)
  show ?case
  proof (cases "n < 10")
    case True
    with 1(2) show ?thesis by (simp add: str_nat.simps [of n] digit_char_not_zero)
  next
    case False
    then have "0 < n div 10" by simp
    with 1 False have "hd (str_nat (n div 10)) \<noteq> CHR ''0''" by simp
    with False show ?thesis
      by (simp add: str_nat.simps [of n] str_nat_not_Nil)
  qed
qed

lemma length_str_nat_small: "n < 10 \<Longrightarrow> length (str_nat n) = 1"
  by (simp add: str_nat.simps [of n])

lemma read_nat_str_nat: "read_nat (str_nat n) = Some n"
proof (cases "n < 10")
  case True
  then show ?thesis
    by (simp add: read_nat_def str_nat_not_Nil length_str_nat_small read_digits_str_nat)
next
  case False
  then have "hd (str_nat n) \<noteq> CHR ''0''" by (simp add: hd_str_nat)
  then show ?thesis
    by (simp add: read_nat_def str_nat_not_Nil read_digits_str_nat)
qed

lemma read_int_str_int: "read_int (str_int i) = Some i"
proof (cases "i < 0")
  case True
  then show ?thesis
    by (simp add: read_int_def str_int_def read_nat_str_nat)
next
  case False
  have "hd (str_nat (nat i)) \<in> set (str_nat (nat i))"
    by (simp add: str_nat_not_Nil)
  then have "hd (str_nat (nat i)) \<noteq> CHR ''-''" by (simp add: str_nat_digits)
  with False show ?thesis
    by (simp add: read_int_def str_int_def read_nat_str_nat)
qed

lemma split_at_point:
  "takeWhile (\<lambda>c. c \<noteq> CHR ''.'') (str_nat i @ ''.'' @ fp) = str_nat i"
  "dropWhile (\<lambda>c. c \<noteq> CHR ''.'') (str_nat i @ ''.'' @ fp) = ''.'' @ fp"
  by (simp_all add: takeWhile_append2 dropWhile_append2 str_nat_digits)

lemma read_decimal3_one:
  "a < 10 \<Longrightarrow> read_decimal3 (str_nat i @ ''.'' @ [digit_char a]) = Some (i * 1000 + a * 100)"
  unfolding read_decimal3_def Let_def split_at_point
  by (simp add: read_nat_str_nat digit_val_digit_char)

lemma read_decimal3_two:
  "a < 10 \<Longrightarrow> 0 < b \<Longrightarrow> b < 10 \<Longrightarrow>
   read_decimal3 (str_nat i @ ''.'' @ [digit_char a, digit_char b])
     = Some (i * 1000 + (10 * a + b) * 10)"
  unfolding read_decimal3_def Let_def split_at_point
  by (simp add: read_nat_str_nat digit_val_digit_char digit_char_not_zero)

lemma read_decimal3_three:
  "a < 10 \<Longrightarrow> b < 10 \<Longrightarrow> 0 < c \<Longrightarrow> c < 10 \<Longrightarrow>
   read_decimal3 (str_nat i @ ''.'' @ [digit_char a, digit_char b, digit_char c])
     = Some (i * 1000 + (10 * (10 * a + b) + c))"
  unfolding read_decimal3_def Let_def split_at_point
  by (simp add: read_nat_str_nat digit_val_digit_char digit_char_not_zero)

lemma three_digits: "10 * (10 * (f div 100) + f div 10 mod 10) + f mod 10 = (f::nat)"
proof -
  have "f div 100 = f div 10 div 10" by (simp add: div_mult2_eq)
  then have "10 * (f div 100) + f div 10 mod 10 = f div 10" by simp
  then show ?thesis by simp
qed

lemma two_digits: "f mod 10 = 0 \<Longrightarrow> (10 * (f div 100) + f div 10 mod 10) * 10 = (f::nat)"
  using three_digits [of f] by simp

lemma one_digit: "f mod 100 = 0 \<Longrightarrow> f div 100 * 100 = (f::nat)"
  by auto

lemma mid_nonzero: "f mod 100 \<noteq> 0 \<Longrightarrow> f mod 10 = 0 \<Longrightarrow> 0 < f div 10 mod 10" for f :: nat
proof (rule ccontr)
  assume a: "f mod 100 \<noteq> 0" "f mod 10 = 0" and "\<not> 0 < f div 10 mod 10"
  then have "f div 10 mod 10 = 0" by simp
  with a(2) two_digits [of f] have "f = f div 100 * 100" by simp
  then have "f mod 100 = 0" by (metis mod_mult_self2_is_0)
  with a(1) show False by simp
qed


lemma read_decimal3_str_float3: "read_decimal3 (str_float3 t) = Some t"
proof -
  define f where "f = t mod 1000"
  define i where "i = t div 1000"
  define a where "a = f div 100"
  define b where "b = f div 10 mod 10"
  define c where "c = f mod 10"
  have t: "i * 1000 + f = t" by (simp add: f_def i_def)
  have f: "f < 1000" by (simp add: f_def)
  then have a: "a < 10" and b: "b < 10" and c: "c < 10"
    by (simp_all add: a_def b_def c_def)
  have str: "str_float3 t = str_nat i @ ''.'' @
      (if f mod 100 = 0 then [digit_char a]
       else if f mod 10 = 0 then [digit_char a, digit_char b]
       else [digit_char a, digit_char b, digit_char c])"
    unfolding str_float3_def Let_def f_def i_def a_def b_def c_def by (rule refl)
  consider (one) "f mod 100 = 0" | (two) "f mod 100 \<noteq> 0" "f mod 10 = 0"
    | (three) "f mod 100 \<noteq> 0" "f mod 10 \<noteq> 0"
    by blast
  then show ?thesis
  proof cases
    case one
    then have v: "a * 100 = f" unfolding a_def by (rule one_digit)
    from one str have "str_float3 t = str_nat i @ ''.'' @ [digit_char a]" by simp
    then have "read_decimal3 (str_float3 t) = Some (i * 1000 + a * 100)"
      using read_decimal3_one [OF a, of i] by simp
    then show ?thesis unfolding v t .
  next
    case two
    then have nz: "0 < b" unfolding b_def by (rule mid_nonzero)
    from two(2) have v: "(10 * a + b) * 10 = f" unfolding a_def b_def by (rule two_digits)
    from two str have "str_float3 t = str_nat i @ ''.'' @ [digit_char a, digit_char b]" by simp
    then have "read_decimal3 (str_float3 t) = Some (i * 1000 + (10 * a + b) * 10)"
      using read_decimal3_two [OF a nz b, of i] by simp
    then show ?thesis unfolding v t .
  next
    case three
    then have nz: "0 < c" unfolding c_def by simp
    have v: "10 * (10 * a + b) + c = f" unfolding a_def b_def c_def by (rule three_digits)
    from three str have "str_float3 t = str_nat i @ ''.'' @ [digit_char a, digit_char b, digit_char c]"
      by simp
    then have "read_decimal3 (str_float3 t) = Some (i * 1000 + (10 * (10 * a + b) + c))"
      using read_decimal3_three [OF a b nz c, of i] by simp
    then show ?thesis unfolding v t .
  qed
qed

lemma round_half_even_tie:
  "2 * (n mod d) = d \<Longrightarrow> even (round_half_even n d)"
  by (simp add: round_half_even_def Let_def)

lemma received_in_mb_tie:
  "(r * 1000) mod 1048576 = 524288 \<Longrightarrow> even (received_in_mb r)"
  using round_half_even_tie [of "r * 1000" "1024 * 1024"] by (simp add: received_in_mb_def)

subsection \<open>The claims about the Body Size Guard\<close>

text \<open>
  Claim C1. Under a finite limit \<open>lim\<close>, take a non-empty sequence of body chunks
  (\<open>http.request\<close> messages) whose cumulative byte length is over
  \<open>lim * 1024 * 1024\<close>, read through a fresh wrapper. Then there is a chunk \<open>k\<close> such that
  the run hands the \<open>k\<close> chunks before it to the application unchanged and raises at chunk
  \<open>k\<close>, once, with status 413; the running total through chunk \<open>k\<close> is over the threshold
  and the running total through every earlier chunk is not; and the chunks after \<open>k\<close> are
  never read: the counter ends at the total through chunk \<open>k\<close>. (A sequence with no chunk
  has no call that could raise; it can only be over a negative threshold.)
\<close>

theorem over_limit_raises_once:
  assumes "\<forall>m\<in>set msgs. mtype m = ''http.request''"
    and "msgs \<noteq> []"
    and "int (total_bytes msgs) > lim * 1024 * 1024"
  shows "\<exists>k e. k < length msgs \<and>
     guard_run (map (Pair (Some lim)) msgs) receive_wrapper
       = (take k msgs, Some e, total_bytes (take (Suc k) msgs)) \<and>
     status_code e = 413 \<and>
     detail e = limit_msg lim (total_bytes (take (Suc k) msgs)) \<and>
     int (total_bytes (take (Suc k) msgs)) > lim * 1024 * 1024 \<and>
     (\<forall>j<k. int (total_bytes (take (Suc j) msgs)) \<le> lim * 1024 * 1024)"
proof -
  from guard_run_exceeds [where msgs = msgs and r = 0 and lim = lim] assms obtain k where
    "k < length msgs"
    "guard_run (map (Pair (Some lim)) msgs) 0
       = (take k msgs,
          Some (MaxFileSizeException (limit_msg lim (total_bytes (take (Suc k) msgs)))),
          total_bytes (take (Suc k) msgs))"
    "int (total_bytes (take (Suc k) msgs)) > lim * 1024 * 1024"
    "\<forall>j<k. int (total_bytes (take (Suc j) msgs)) \<le> lim * 1024 * 1024"
    by auto
  then show ?thesis
    by (intro exI [of _ k]
          exI [of _ "MaxFileSizeException (limit_msg lim (total_bytes (take (Suc k) msgs)))"])
       (simp add: receive_wrapper_def MaxFileSizeException_def)
qed

theorem over_limit_raises_once_witness:
  "\<exists>k e. k < length [chunk 409600, chunk 409600, chunk 409600] \<and>
     guard_run (map (Pair (Some 1)) [chunk 409600, chunk 409600, chunk 409600]) receive_wrapper
       = (take k [chunk 409600, chunk 409600, chunk 409600], Some e,
          total_bytes (take (Suc k) [chunk 409600, chunk 409600, chunk 409600])) \<and>
     status_code e = 413 \<and>
     detail e = limit_msg 1 (total_bytes (take (Suc k) [chunk 409600, chunk 409600, chunk 409600])) \<and>
     int (total_bytes (take (Suc k) [chunk 409600, chunk 409600, chunk 409600])) > 1 * 1024 * 1024 \<and>
     (\<forall>j<k. int (total_bytes (take (Suc j) [chunk 409600, chunk 409600, chunk 409600]))
        \<le> 1 * 1024 * 1024)"
  by (rule over_limit_raises_once) (simp_all add: total_bytes_simps counted_def chunk_simps)

text \<open>
  Claim C2. Under a finite limit \<open>lim\<close>, every sequence of messages whose body chunks
  carry at most \<open>lim * 1024 * 1024\<close> bytes in total is handed to the application whole and
  unchanged by a fresh wrapper, and no exception is raised.
\<close>

theorem within_limit_forwards_all:
  assumes "int (total_bytes msgs) \<le> lim * 1024 * 1024"
  shows "guard_run (map (Pair (Some lim)) msgs) receive_wrapper = (msgs, None, total_bytes msgs)"
  using guard_run_within [of 0 msgs lim] assms by (simp add: receive_wrapper_def)

theorem within_limit_forwards_all_witness:
  "guard_run (map (Pair (Some 1)) [chunk 409600, chunk 409600]) receive_wrapper
     = ([chunk 409600, chunk 409600], None, 819200)"
  using within_limit_forwards_all [where msgs = "[chunk 409600, chunk 409600]" and lim = 1]
  by (simp add: total_bytes_simps counted_def chunk_simps)

text \<open>
  Claim C7. While the setting is the "no limit" value \<open>None\<close>, a call of \<open>inner\<close> returns
  the message it received, whatever the message and the counter are, and a whole stream
  read under \<open>None\<close> is handed on unchanged with no exception and an untouched counter,
  regardless of how many bytes it carries.
\<close>

theorem unlimited_never_raises:
  "inner None m r = (Inr m, r) \<and> guard_run (map (Pair None) msgs) r = (msgs, None, r)"
  by (simp add: inner_None guard_run_None)

theorem unlimited_never_raises_witness:
  "inner None (chunk 5000000) 7 = (Inr (chunk 5000000), 7) \<and>
   guard_run (map (Pair None) [chunk 5000000, chunk 5000000]) 0
     = ([chunk 5000000, chunk 5000000], None, 0)"
  using unlimited_never_raises [of "chunk 5000000" 7]
    unlimited_never_raises [of "chunk 5000000" 0 "[chunk 5000000, chunk 5000000]"]
  by simp

text \<open>
  Claim C8. The setting is an input of every call, not of the wrapper: after any run
  \<open>pre\<close> that did not raise, whatever settings its calls saw, the next chunk is checked
  against the setting read at its own call. Read under \<open>None\<close> it is passed on; read under
  \<open>Some lim\<close> a body chunk raises exactly when the counter with its bytes added is over
  \<open>lim * 1024 * 1024\<close>. So a change of the setting between two chunks decides the second.
\<close>

theorem setting_read_per_chunk:
  assumes "guard_run pre r0 = (out, None, r)"
  shows "guard_run (pre @ [(None, m)]) r0 = (out @ [m], None, r) \<and>
    (mtype m = ''http.request'' \<longrightarrow>
       guard_run (pre @ [(Some lim, m)]) r0 =
         (if int (r + body_len m) > lim * 1024 * 1024
          then (out, Some (MaxFileSizeException (limit_msg lim (r + body_len m))), r + body_len m)
          else (out @ [m], None, r + body_len m)))"
  using guard_run_append [OF assms]
  by (simp add: inner_None inner_Some)

theorem setting_read_per_chunk_witness:
  "guard_run [(Some 2, chunk 614400), (Some 2, chunk 614400)] 0
     = ([chunk 614400, chunk 614400], None, 1228800) \<and>
   guard_run [(Some 2, chunk 614400), (Some 1, chunk 614400)] 0
     = ([chunk 614400], Some (MaxFileSizeException (limit_msg 1 1228800)), 1228800) \<and>
   guard_run [(Some 2, chunk 614400), (None, chunk 614400)] 0
     = ([chunk 614400, chunk 614400], None, 614400)"
proof -
  have pre: "guard_run [(Some 2, chunk 614400)] 0 = ([chunk 614400], None, 614400)"
    by (simp add: inner_Some chunk_simps)
  show ?thesis
    using setting_read_per_chunk [OF pre, of "chunk 614400" 2]
      setting_read_per_chunk [OF pre, of "chunk 614400" 1]
    by (simp add: chunk_simps del: guard_run.simps)
qed

text \<open>
  Claim C9. When a call raises, the exception has status 413 and the detail
  \<open>Content size limit exceeded. Maximum allowed is NMB and got MMB.\<close>. \<open>N\<close> is the
  configured limit: read as a decimal integer it gives back the limit. \<open>M\<close> is the
  counter, that call's bytes included, in megabytes rounded to three decimals: read as a
  decimal it gives a number of thousandths that is within half a thousandth of
  \<open>received / (1024 * 1024)\<close>, and even when the quotient lies exactly between two
  thousandths. With limit 1 and three chunks of 400 KB the third call raises, reporting
  \<open>1MB\<close> and \<open>1.172MB\<close>. (Counters below \<open>2 ^ 53\<close>, where the float quotient is exact.)
\<close>

theorem size_limit_error_message:
  "(inner s m r = (Inl e, r') \<and> r' < 2 ^ 53 \<longrightarrow>
      (\<exists>lim. s = Some lim \<and> r' = r + body_len m \<and> int r' > lim * 1024 * 1024 \<and>
         status_code e = 413 \<and>
         detail e = ''Content size limit exceeded. Maximum allowed is '' @ str_int lim
                    @ ''MB and got '' @ str_float3 (received_in_mb r') @ ''MB.'' \<and>
         read_int (str_int lim) = Some lim \<and>
         read_decimal3 (str_float3 (received_in_mb r')) = Some (received_in_mb r') \<and>
         2 * \<bar>int (received_in_mb r') * 1048576 - 1000 * int r'\<bar> \<le> 1048576 \<and>
         ((r' * 1000) mod 1048576 = 524288 \<longrightarrow> even (received_in_mb r')))) \<and>
   guard_run (map (Pair (Some 1)) [chunk (400 * 1024), chunk (400 * 1024), chunk (400 * 1024)])
       receive_wrapper
     = ([chunk (400 * 1024), chunk (400 * 1024)],
        Some \<lparr>status_code = 413,
              detail = ''Content size limit exceeded. Maximum allowed is 1MB and got 1.172MB.''\<rparr>,
        1200 * 1024)"
proof (intro conjI impI)
  assume a: "inner s m r = (Inl e, r') \<and> r' < 2 ^ 53"
  then have http: "mtype m = ''http.request''" and "s \<noteq> None"
    by (auto simp: inner_def split: if_splits)
  then obtain lim where s: "s = Some lim" by auto
  from a s http have r': "r' = r + body_len m" and over: "int r' > lim * 1024 * 1024"
    and e: "e = MaxFileSizeException (limit_msg lim r')"
    by (auto simp: inner_Some split: if_splits)
  from e have "status_code e = 413"
    and "detail e = ''Content size limit exceeded. Maximum allowed is '' @ str_int lim
                    @ ''MB and got '' @ str_float3 (received_in_mb r') @ ''MB.''"
    by (simp_all add: MaxFileSizeException_def limit_msg_def)
  with s r' over show "\<exists>lim. s = Some lim \<and> r' = r + body_len m \<and> int r' > lim * 1024 * 1024 \<and>
         status_code e = 413 \<and>
         detail e = ''Content size limit exceeded. Maximum allowed is '' @ str_int lim
                    @ ''MB and got '' @ str_float3 (received_in_mb r') @ ''MB.'' \<and>
         read_int (str_int lim) = Some lim \<and>
         read_decimal3 (str_float3 (received_in_mb r')) = Some (received_in_mb r') \<and>
         2 * \<bar>int (received_in_mb r') * 1048576 - 1000 * int r'\<bar> \<le> 1048576 \<and>
         ((r' * 1000) mod 1048576 = 524288 \<longrightarrow> even (received_in_mb r'))"
    using received_in_mb_bound [of r'] received_in_mb_tie [of r']
      read_int_str_int [of lim] read_decimal3_str_float3 [of "received_in_mb r'"]
    by blast
next
  show "guard_run (map (Pair (Some 1)) [chunk (400 * 1024), chunk (400 * 1024), chunk (400 * 1024)])
       receive_wrapper
     = ([chunk (400 * 1024), chunk (400 * 1024)],
        Some \<lparr>status_code = 413,
              detail = ''Content size limit exceeded. Maximum allowed is 1MB and got 1.172MB.''\<rparr>,
        1200 * 1024)"
    by (simp add: receive_wrapper_def inner_Some chunk_simps MaxFileSizeException_def limit_msg_def
     str_float3_def received_in_mb_def round_half_even_def Let_def str_nat.simps digit_char_def str_int_def)
qed

theorem size_limit_error_message_witness:
  "inner (Some 2) (chunk 3145728) 0
     = (Inl \<lparr>status_code = 413,
             detail = ''Content size limit exceeded. Maximum allowed is 2MB and got 3.0MB.''\<rparr>, 3145728) \<and>
   read_int ''2'' = Some 2 \<and> read_decimal3 ''3.0'' = Some 3000"
proof -
  have i: "inner (Some 2) (chunk 3145728) 0
     = (Inl (MaxFileSizeException (limit_msg 2 3145728)), 3145728)"
    by (simp add: inner_Some chunk_simps)
  have "(3145728::nat) < 2 ^ 53" by simp
  with i size_limit_error_message
    [of "Some 2" "chunk 3145728" 0 "MaxFileSizeException (limit_msg 2 3145728)" 3145728]
  have "status_code (MaxFileSizeException (limit_msg 2 3145728)) = 413 \<and>
    detail (MaxFileSizeException (limit_msg 2 3145728))
      = ''Content size limit exceeded. Maximum allowed is '' @ str_int 2
                    @ ''MB and got '' @ str_float3 (received_in_mb 3145728) @ ''MB.'' \<and>
    read_int (str_int 2) = Some 2 \<and>
    read_decimal3 (str_float3 (received_in_mb 3145728)) = Some (received_in_mb 3145728)"
    by blast
  moreover have "str_int 2 = ''2''"
    by (simp add: str_nat.simps digit_char_def str_int_def)
  moreover have "received_in_mb 3145728 = 3000"
    by (simp add: received_in_mb_def round_half_even_def Let_def)
  moreover have "str_float3 3000 = ''3.0''"
    by (simp add: str_float3_def Let_def str_nat.simps digit_char_def)
  ultimately have "MaxFileSizeException (limit_msg 2 3145728)
     = \<lparr>status_code = 413,
             detail = ''Content size limit exceeded. Maximum allowed is 2MB and got 3.0MB.''\<rparr>"
    and "read_int ''2'' = Some 2" and "read_decimal3 ''3.0'' = Some 3000"
    by simp_all
  with i show ?thesis by simp
qed

text \<open>
  Claim C10. A call adds a message's body length to the counter exactly when the message
  is an \<open>http.request\<close> and the setting read at that call is a finite limit; under \<open>None\<close>,
  and for any other message, the counter is left as it was. Hence a stream that starts
  with messages read under \<open>None\<close> continues, once a limit is set, from the counter it
  started with: only the bytes received from then on count against the limit.
\<close>

theorem counter_counts_limited_body_chunks:
  "snd (inner s m r) = r + (if mtype m = ''http.request'' \<and> s \<noteq> None then body_len m else 0) \<and>
   guard_run (map (Pair None) pre @ post) r
     = (case guard_run post r of (out, err, r') \<Rightarrow> (pre @ out, err, r'))"
proof
  show "snd (inner s m r) = r + (if mtype m = ''http.request'' \<and> s \<noteq> None then body_len m else 0)"
    by (cases s) (simp_all add: inner_def Let_def)
  show "guard_run (map (Pair None) pre @ post) r
     = (case guard_run post r of (out, err, r') \<Rightarrow> (pre @ out, err, r'))"
    by (rule guard_run_append) (rule guard_run_None)
qed

theorem counter_counts_limited_body_chunks_witness:
  "snd (inner (Some 1) (chunk 614400) 0) = 614400 \<and>
   snd (inner None (chunk 614400) 0) = 0 \<and>
   snd (inner (Some 1) \<lparr>mtype = ''http.disconnect'', body = Some [1, 2, 3], more_body = False\<rparr> 0) = 0 \<and>
   guard_run (map (Pair None) [chunk 2097152] @ [(Some 1, chunk 614400)]) 0
     = ([chunk 2097152, chunk 614400], None, 614400)"
  using counter_counts_limited_body_chunks [of "Some 1" "chunk 614400" 0 "[]" "[]"]
    counter_counts_limited_body_chunks [of None "chunk 614400" 0 "[]" "[]"]
    counter_counts_limited_body_chunks [of "Some 1" "\<lparr>mtype = ''http.disconnect'', body = Some [1, 2, 3], more_body = False\<rparr>" 0 "[]" "[]"]
    counter_counts_limited_body_chunks [of None "chunk 614400" 0 "[chunk 2097152]" "[(Some 1, chunk 614400)]"]
  by (simp add: chunk_simps inner_Some del: map_append)

section \<open>Properties of the Origin Gate\<close>

lemma startswith_prefix: "startswith s = (\<lambda>p. prefix p s)"
  by (simp add: fun_eq_iff startswith_def)

text \<open>
  Claim C3. With a non-empty allow-list and a path that starts with none of the bypass
  prefixes, \<open>dispatch\<close> hands the request to \<open>call_next\<close> and returns its response
  exactly when the extracted origin is non-empty and starts with an entry of the
  allow-list. Otherwise \<open>call_next\<close> is not called, the response is a 401 with the JSON
  body \<open>{"detail": "Direct access not allowed"}\<close>, and one warning is logged that names the
  origin, or \<open>unknown origin\<close> when it is empty.
\<close>

theorem origin_gate_decision:
  assumes "allowed_origins \<noteq> []"
    and "\<not> list_ex (\<lambda>p. prefix p (path req)) [''/health'', ''/docs'', ''/openapi.json'']"
  shows "dispatch allowed_origins call_next req =
     (if request_origin req \<noteq> [] \<and> list_ex (\<lambda>a. prefix a (request_origin req)) allowed_origins
      then \<lparr>response = Next (call_next req), called_next = [req], logged = []\<rparr>
      else \<lparr>response = JSONResponse 401 [(''detail'', ''Direct access not allowed'')],
            called_next = [],
            logged = [Warning (no_entry_sign @ '' Blocked direct access from: '' @
                       (if request_origin req = [] then ''unknown origin'' else request_origin req))]\<rparr>)"
  using assms
  by (simp add: dispatch_def forward_def bypass_paths_def startswith_prefix is_origin_allowed_def
      py_or_def Let_def)

theorem origin_gate_decision_witness:
  "dispatch [''https://example.com''] path
      \<lparr>path = ''/api/x'', headers = [(''origin'', ''https://example.com/app'')]\<rparr>
     = \<lparr>response = Next ''/api/x'',
        called_next = [\<lparr>path = ''/api/x'', headers = [(''origin'', ''https://example.com/app'')]\<rparr>],
        logged = []\<rparr> \<and>
   dispatch [''https://example.com''] path
      \<lparr>path = ''/api/x'', headers = [(''origin'', ''https://evil.com'')]\<rparr>
     = \<lparr>response = JSONResponse 401 [(''detail'', ''Direct access not allowed'')],
        called_next = [],
        logged = [Warning (no_entry_sign @ '' Blocked direct access from: https://evil.com'')]\<rparr> \<and>
   dispatch [''https://example.com''] path \<lparr>path = ''/api/x'', headers = []\<rparr>
     = \<lparr>response = JSONResponse 401 [(''detail'', ''Direct access not allowed'')],
        called_next = [],
        logged = [Warning (no_entry_sign @ '' Blocked direct access from: unknown origin'')]\<rparr>"
  using origin_gate_decision [of "[''https://example.com'']"
      "\<lparr>path = ''/api/x'', headers = [(''origin'', ''https://example.com/app'')]\<rparr>" path]
    origin_gate_decision [of "[''https://example.com'']"
      "\<lparr>path = ''/api/x'', headers = [(''origin'', ''https://evil.com'')]\<rparr>" path]
    origin_gate_decision [of "[''https://example.com'']" "\<lparr>path = ''/api/x'', headers = []\<rparr>" path]
  by (simp add: request_origin_def headers_get_def py_or_def)

text \<open>
  Claim C4, as it stands, fails on a request whose \<open>Origin\<close> header is present with an
  empty value: Python's \<open>or\<close> treats the empty string like a missing header, so the
  \<open>Referer\<close> value becomes the origin that is checked, and the request below is forwarded
  on the strength of its \<open>Referer\<close>.
\<close>

theorem empty_origin_header_uses_referer:
  "headers_get \<lparr>path = ''/api/x'',
       headers = [(''origin'', []), (''referer'', ''https://example.com/app'')]\<rparr> ''origin''
     = Some [] \<and>
   request_origin \<lparr>path = ''/api/x'',
       headers = [(''origin'', []), (''referer'', ''https://example.com/app'')]\<rparr>
     = ''https://example.com/app'' \<and>
   response (dispatch [''https://example.com''] path
       \<lparr>path = ''/api/x'',
         headers = [(''origin'', []), (''referer'', ''https://example.com/app'')]\<rparr>)
     = Next ''/api/x''"
  by (simp add: request_origin_def py_or_def headers_get_def dispatch_def forward_def
      bypass_paths_def startswith_def is_origin_allowed_def)

text \<open>
  Claim C4, amended. The origin the gate checks is the value of the \<open>Origin\<close> header
  when that header is present and not empty. When the \<open>Origin\<close> header is absent or empty
  it is the value of the \<open>Referer\<close> header, and the empty string when there is no
  \<open>Referer\<close> header either.
\<close>

theorem request_origin_cases:
  "(headers_get req ''origin'' = Some v \<and> v \<noteq> [] \<longrightarrow> request_origin req = v) \<and>
   ((headers_get req ''origin'' = None \<or> headers_get req ''origin'' = Some []) \<and>
      headers_get req ''referer'' = Some w \<longrightarrow> request_origin req = w) \<and>
   ((headers_get req ''origin'' = None \<or> headers_get req ''origin'' = Some []) \<and>
      headers_get req ''referer'' = None \<longrightarrow> request_origin req = [])"
  by (auto simp: request_origin_def py_or_def)

theorem request_origin_cases_witness:
  "request_origin \<lparr>path = ''/api/x'',
       headers = [(''origin'', ''https://a.example''), (''referer'', ''https://b.example/page'')]\<rparr>
     = ''https://a.example'' \<and>
   request_origin \<lparr>path = ''/api/x'', headers = [(''referer'', ''https://b.example/page'')]\<rparr>
     = ''https://b.example/page'' \<and>
   request_origin \<lparr>path = ''/api/x'', headers = [(''origin'', [])]\<rparr> = []"
  using request_origin_cases [of "\<lparr>path = ''/api/x'',
       headers = [(''origin'', ''https://a.example''), (''referer'', ''https://b.example/page'')]\<rparr>"
       "''https://a.example''" "[]"]
    request_origin_cases [of "\<lparr>path = ''/api/x'', headers = [(''referer'', ''https://b.example/page'')]\<rparr>"
       "[]" "''https://b.example/page''"]
    request_origin_cases [of "\<lparr>path = ''/api/x'', headers = [(''origin'', [])]\<rparr>" "[]" "[]"]
  by (simp add: headers_get_def)

text \<open>
  Claim C5. With an empty allow-list \<open>dispatch\<close> hands every request to \<open>call_next\<close>,
  whatever its path and headers, returns that response, and logs nothing; it never
  answers 401.
\<close>

theorem empty_allow_list_forwards:
  "dispatch [] call_next req
     = \<lparr>response = Next (call_next req), called_next = [req], logged = []\<rparr>"
  by (simp add: dispatch_def forward_def)

theorem empty_allow_list_forwards_witness:
  "dispatch [] path \<lparr>path = ''/api/x'', headers = [(''origin'', ''https://evil.com'')]\<rparr>
     = \<lparr>response = Next ''/api/x'',
        called_next = [\<lparr>path = ''/api/x'', headers = [(''origin'', ''https://evil.com'')]\<rparr>],
        logged = []\<rparr>"
  using empty_allow_list_forwards
    [of path "\<lparr>path = ''/api/x'', headers = [(''origin'', ''https://evil.com'')]\<rparr>"]
  by simp

text \<open>
  Claim C6. A request whose path starts with \<open>/health\<close>, \<open>/docs\<close> or \<open>/openapi.json\<close> is
  handed to \<open>call_next\<close> whatever the allow-list and the headers are: the bypass is
  decided before the origin is looked at, so it also covers an origin that the allow-list
  rejects.
\<close>

theorem bypass_path_forwards:
  assumes "list_ex (\<lambda>p. prefix p (path req)) [''/health'', ''/docs'', ''/openapi.json'']"
  shows "dispatch allowed_origins call_next req
     = \<lparr>response = Next (call_next req), called_next = [req], logged = []\<rparr>"
  using assms by (simp add: dispatch_def forward_def bypass_paths_def startswith_def)

theorem bypass_path_forwards_witness:
  "\<not> is_origin_allowed [''https://example.com'']
       (request_origin \<lparr>path = ''/health'', headers = [(''origin'', ''https://evil.com'')]\<rparr>) \<and>
   dispatch [''https://example.com''] path
      \<lparr>path = ''/health'', headers = [(''origin'', ''https://evil.com'')]\<rparr>
     = \<lparr>response = Next ''/health'',
        called_next = [\<lparr>path = ''/health'', headers = [(''origin'', ''https://evil.com'')]\<rparr>],
        logged = []\<rparr>"
  using bypass_path_forwards
    [of "\<lparr>path = ''/health'', headers = [(''origin'', ''https://evil.com'')]\<rparr>"
        "[''https://example.com'']" path]
  by (simp add: is_origin_allowed_def request_origin_def headers_get_def py_or_def startswith_def)

end
